theory Spec2Isabelle
  imports Main "HOL-Library.AList" "HOL-Library.Char_ord" "HOL-Library.List_Lexorder"
begin

section \<open>openeo/util.py: deep\_get\<close>

text \<open>
  The keys of a path are strings or ints. Python's \<open>bool\<close> is a subclass of \<open>int\<close>
  with \<open>True == 1\<close> and \<open>False == 0\<close> (same hash), so a bool key is \<open>KInt 1\<close> or
  \<open>KInt 0\<close>. The data is a nesting of dicts, lists and tuples over scalars; a dict is an
  association list whose lookup is \<open>map_of\<close>.
\<close>

datatype pykey = KStr string | KInt int

datatype pydata =
    DNone
  | DBool bool
  | DInt int
  | DStr string
  | DList "pydata list"
  | DTuple "pydata list"
  | DDict "(pykey \<times> pydata) list"

datatype util_error = DeepKeyError pykey "pykey list"

text \<open>\<open>isinstance(data, dict) and key in data\<close>, then \<open>data[key]\<close>.\<close>

fun dict_has :: "pydata \<Rightarrow> pykey \<Rightarrow> bool" where
  "dict_has (DDict kvs) k = (k \<in> set (map fst kvs))"
| "dict_has _ k = False"

fun dict_item :: "pydata \<Rightarrow> pykey \<Rightarrow> pydata" where
  "dict_item (DDict kvs) k = (case map_of kvs k of Some v \<Rightarrow> v | None \<Rightarrow> DNone)"
| "dict_item d k = d"

text \<open>
  \<open>isinstance(data, (list, tuple)) and isinstance(key, int) and 0 <= key < len(data)\<close>,
  then \<open>data[key]\<close>.
\<close>

fun seq_has :: "pydata \<Rightarrow> pykey \<Rightarrow> bool" where
  "seq_has (DList xs) (KInt i) = (0 \<le> i \<and> i < int (length xs))"
| "seq_has (DTuple xs) (KInt i) = (0 \<le> i \<and> i < int (length xs))"
| "seq_has _ _ = False"

fun seq_item :: "pydata \<Rightarrow> pykey \<Rightarrow> pydata" where
  "seq_item (DList xs) (KInt i) = xs ! nat i"
| "seq_item (DTuple xs) (KInt i) = xs ! nat i"
| "seq_item d _ = d"

text \<open>
  The loop of \<open>deep_get\<close>: \<open>keys\<close> is the whole path (it goes into the error), the last
  argument is what is left of it; \<open>dflt = None\<close> (the argument \<open>default\<close>) is the sentinel
  \<open>_deep_get_default_undefined\<close>.
\<close>

fun deep_get_loop :: "pykey list \<Rightarrow> pydata option \<Rightarrow> pydata \<Rightarrow> pykey list \<Rightarrow> util_error + pydata" where
  "deep_get_loop keys dflt data [] = Inr data"
| "deep_get_loop keys dflt data (key # rest) =
     (if dict_has data key then deep_get_loop keys dflt (dict_item data key) rest
      else if seq_has data key then deep_get_loop keys dflt (seq_item data key) rest
      else (case dflt of
              None \<Rightarrow> Inl (DeepKeyError key keys)
            | Some d \<Rightarrow> Inr d))"

definition deep_get :: "pydata \<Rightarrow> pykey list \<Rightarrow> pydata option \<Rightarrow> util_error + pydata" where
  "deep_get data keys dflt = deep_get_loop keys dflt data keys"

text \<open>
  The path semantics in the words of the specification: a step is present when the current
  value is a dict containing the key, or a list or tuple indexed by an int \<open>i\<close> with
  \<open>0 \<le> i < length\<close>.
\<close>

inductive path_step :: "pydata \<Rightarrow> pykey \<Rightarrow> pydata \<Rightarrow> bool" where
  step_dict: "map_of kvs k = Some v \<Longrightarrow> path_step (DDict kvs) k v"
| step_list: "0 \<le> i \<Longrightarrow> i < int (length xs) \<Longrightarrow> path_step (DList xs) (KInt i) (xs ! nat i)"
| step_tuple: "0 \<le> i \<Longrightarrow> i < int (length xs) \<Longrightarrow> path_step (DTuple xs) (KInt i) (xs ! nat i)"

inductive follows :: "pydata \<Rightarrow> pykey list \<Rightarrow> pydata \<Rightarrow> bool" where
  follows_nil: "follows d [] d"
| follows_cons: "path_step d k d' \<Longrightarrow> follows d' ks v \<Longrightarrow> follows d (k # ks) v"

section \<open>openeo/internal/graphbuilder.py: FlatGraphKeyGenerator\<close>

text \<open>\<open>str\<close> of a non-negative int: its decimal digits.\<close>

definition digit_char :: "nat \<Rightarrow> char" where
  "digit_char d = ''0123456789'' ! d"

function str_of_nat :: "nat \<Rightarrow> string" where
  "str_of_nat n = (if n < 10 then [digit_char n] else str_of_nat (n div 10) @ [digit_char (n mod 10)])"
  by pat_completeness auto
termination
  by (relation "measure (\<lambda>n. n)") auto

declare str_of_nat.simps [simp del]

text \<open>
  The generator's state is \<open>_counters\<close>, a \<open>defaultdict(int)\<close>: every process id
  starts at 0. \<open>generate\<close> increments the counter of the process id and returns the id
  without its underscores followed by the counter.
\<close>

type_synonym keygen = "string \<Rightarrow> nat"

definition new_keygen :: keygen where
  "new_keygen = (\<lambda>_. 0)"

definition generate :: "keygen \<Rightarrow> string \<Rightarrow> string \<times> keygen" where
  "generate counters process_id =
     (let counters' = counters(process_id := counters process_id + 1)
      in (filter (\<lambda>c. c \<noteq> CHR ''_'') process_id @ str_of_nat (counters' process_id), counters'))"

text \<open>A sequence of \<open>generate\<close> calls on one instance, with the keys in call order.\<close>

fun generate_all :: "keygen \<Rightarrow> string list \<Rightarrow> string list \<times> keygen" where
  "generate_all kg [] = ([], kg)"
| "generate_all kg (p # ps) =
     (let (k, kg') = generate kg p; (ks, kg'') = generate_all kg' ps in (k # ks, kg''))"

section \<open>openeo/internal/graphbuilder.py: values, builder, process\<close>

text \<open>
  Process graphs are JSON-like Python values. A dict is an association list in insertion
  order: \<open>k in d\<close> is \<open>k \<in> dict_keys d\<close>, \<open>d[k]\<close> is \<open>map_of d k\<close> and
  \<open>d[k] = v\<close> is \<open>AList.update k v d\<close> (in place for a key that is there, at the end
  otherwise). \<open>VBuiltinId\<close> is Python's builtin function \<open>id\<close>, which
  \<open>GraphBuilder.process\<close> returns. Values are trees: \<open>copy.deepcopy\<close> is the
  identity on them, and a mutation in place is the mutated value handed back.
\<close>

datatype pyval =
    VNone
  | VBool bool
  | VInt int
  | VStr string
  | VList "pyval list"
  | VDict "(string \<times> pyval) list"
  | VBuiltinId

datatype py_error =
    AttributeError string
  | KeyError pyval
  | TypeError string
  | InvalidArgument string

definition dict_keys :: "(string \<times> pyval) list \<Rightarrow> string set" where
  "dict_keys d = fst ` set d"

definition deepcopy :: "pyval \<Rightarrow> pyval" where
  "deepcopy v = v"

text \<open>
  The builder's only attribute is \<open>result_node\<close>; \<open>GraphBuilder()\<close> does not set it
  (\<open>None\<close> here), and reading it then raises \<open>AttributeError\<close>.
\<close>

record graph_builder =
  result_node :: "pyval option"

definition GraphBuilder :: graph_builder where
  "GraphBuilder = \<lparr>result_node = None\<rparr>"

definition shallow_copy :: "graph_builder \<Rightarrow> py_error + graph_builder" where
  "shallow_copy self =
     (case result_node self of
        None \<Rightarrow> Inl (AttributeError ''result_node'')
      | Some r \<Rightarrow> Inr (GraphBuilder\<lparr>result_node := Some (deepcopy r)\<rparr>))"

definition from_process_graph :: "pyval \<Rightarrow> graph_builder" where
  "from_process_graph graph = GraphBuilder\<lparr>result_node := Some (deepcopy graph)\<rparr>"

definition new_process :: "pyval \<Rightarrow> (string \<times> pyval) list \<Rightarrow> pyval" where
  "new_process process_id args = VDict [(''process_id'', process_id), (''arguments'', VDict args)]"

text \<open>
  \<open>process\<close>: an argument named \<open>from_node\<close> is overwritten with the current root, the
  new node becomes the root, and the builtin \<open>id\<close> is returned.
\<close>

definition process :: "graph_builder \<Rightarrow> pyval \<Rightarrow> (string \<times> pyval) list \<Rightarrow> py_error + (pyval \<times> graph_builder)" where
  "process self process_id args =
     (if ''from_node'' \<in> dict_keys args then
        (case result_node self of
           None \<Rightarrow> Inl (AttributeError ''result_node'')
         | Some root \<Rightarrow>
             Inr (VBuiltinId,
                  self\<lparr>result_node := Some (new_process process_id (AList.update ''from_node'' root args))\<rparr>))
      else Inr (VBuiltinId, self\<lparr>result_node := Some (new_process process_id args)\<rparr>))"

text \<open>\<open>d[k] = v\<close> on a value that must be a dict.\<close>

fun setitem :: "pyval \<Rightarrow> string \<Rightarrow> pyval \<Rightarrow> py_error + pyval" where
  "setitem (VDict d) k v = Inr (VDict (AList.update k v d))"
| "setitem _ k v = Inl (TypeError ''object does not support item assignment'')"

text \<open>\<open>add_process(process_id, result=None, **args)\<close>; \<open>result = VNone\<close> is the default.\<close>

definition add_process :: "graph_builder \<Rightarrow> pyval \<Rightarrow> pyval \<Rightarrow> (string \<times> pyval) list \<Rightarrow> py_error + (pyval \<times> graph_builder)" where
  "add_process self process_id result args =
     (case process self process_id args of
        Inl e \<Rightarrow> Inl e
      | Inr (pid, self') \<Rightarrow>
          (if result \<noteq> VNone then
             (case result_node self' of
                None \<Rightarrow> Inl (AttributeError ''result_node'')
              | Some node \<Rightarrow>
                  (case setitem node ''result'' result of
                     Inl e \<Rightarrow> Inl e
                   | Inr node' \<Rightarrow> Inr (pid, self'\<lparr>result_node := Some node'\<rparr>)))
           else Inr (pid, self')))"

text \<open>\<open>combine\<close>: a new builder whose only node holds both roots in a list of references.\<close>

definition combine :: "pyval \<Rightarrow> graph_builder \<Rightarrow> graph_builder \<Rightarrow> string \<Rightarrow> py_error + graph_builder" where
  "combine operator first second arg_name =
     (case result_node first of
        None \<Rightarrow> Inl (AttributeError ''result_node'')
      | Some a \<Rightarrow>
          (case result_node second of
             None \<Rightarrow> Inl (AttributeError ''result_node'')
           | Some b \<Rightarrow>
               (case add_process GraphBuilder operator (VBool True)
                       [(arg_name, VList [VDict [(''from_node'', a)], VDict [(''from_node'', b)]])] of
                  Inl e \<Rightarrow> Inl e
                | Inr (_, merged) \<Rightarrow> Inr merged)))"

section \<open>openeo/internal/graphbuilder.py: flatten\<close>

text \<open>
  What the hooks of \<open>Flattener\<close> share: the key generator handed to \<open>flatten\<close>, the
  \<open>flat_graph\<close> under construction and the class attribute \<open>last_node_id\<close>
  (\<open>None\<close> until a process has been left).
\<close>

record fstate =
  key_generator :: keygen
  flat_graph :: "(string \<times> pyval) list"
  last_node_id :: pyval

text \<open>
  \<open>leaveProcess\<close>: a new key for the process id, remembered as \<open>last_node_id\<close>, and the
  node stored under it. \<open>generate\<close> needs a string: a list or dict is not hashable, and
  any other value has no \<open>replace\<close>.
\<close>

definition leaveProcess :: "pyval \<Rightarrow> (string \<times> pyval) list \<Rightarrow> fstate \<Rightarrow> py_error + fstate" where
  "leaveProcess process_id arguments st =
     (case process_id of
        VStr p \<Rightarrow>
          (let (node_id, kg) = generate (key_generator st) p
           in Inr (st\<lparr>key_generator := kg,
                      last_node_id := VStr node_id,
                      flat_graph := AList.update node_id (new_process process_id arguments) (flat_graph st)\<rparr>))
      | VList _ \<Rightarrow> Inl (TypeError ''unhashable type'')
      | VDict _ \<Rightarrow> Inl (TypeError ''unhashable type'')
      | _ \<Rightarrow> Inl (AttributeError ''replace''))"

text \<open>\<open>if 'from_node' in node: node['from_node'] = Flattener.last_node_id\<close>, on a dict.\<close>

definition arrayElementDone :: "(string \<times> pyval) list \<Rightarrow> fstate \<Rightarrow> (string \<times> pyval) list" where
  "arrayElementDone node st =
     (if ''from_node'' \<in> dict_keys node then AList.update ''from_node'' (last_node_id st) node else node)"

text \<open>\<open>flat_graph[flattener.last_node_id]['result'] = True\<close>, the last statement of \<open>flatten\<close>.\<close>

definition mark_result :: "fstate \<Rightarrow> py_error + (string \<times> pyval) list" where
  "mark_result st =
     (case last_node_id st of
        VStr k \<Rightarrow>
          (case map_of (flat_graph st) k of
             None \<Rightarrow> Inl (KeyError (VStr k))
           | Some node \<Rightarrow>
               (case setitem node ''result'' (VBool True) of
                  Inl e \<Rightarrow> Inl e
                | Inr node' \<Rightarrow> Inr (AList.update k node' (flat_graph st))))
      | other \<Rightarrow> Inl (KeyError other))"

lemma map_of_size [termination_simp]:
  "map_of kvs k = Some v \<Longrightarrow> size v < Suc (size_list (size_prod (\<lambda>_. 0) size) kvs)"
  by (induction kvs) (auto split: if_splits)

text \<open>
  Modelled from the spec: \<open>ProcessGraphVisitor.accept\<close> of
  \<open>openeo/internal/process_graph_visitor.py\<close>, which \<open>Flattener\<close> extends, is not among
  the sources. The functions \<open>accept\<close>, \<open>accept_arguments\<close>, \<open>accept_array\<close> and
  \<open>accept_value\<close> are the depth-first traversal of sections 4.4 and 6 of the
  specification: a process node (a dict with \<open>process_id\<close>) has its arguments visited in
  their order and then \<open>leaveProcess\<close> is fired with the arguments as they are by then; a
  list argument is visited element by element in order, and \<open>arrayElementDone\<close> is fired
  after each element that is a dict; \<open>leaveArgument\<close> is fired after every other argument
  that is a dict; visiting a dict means traversing the node it embeds under \<open>from_node\<close>,
  if it embeds one. A value that is neither a list nor a dict is a literal and passes
  unchanged, with no hook of \<open>Flattener\<close> fired (in tests/rest/datacube/test\_bandmath.py
  the arguments \<open>None\<close> and \<open>2\<close> and the list element \<open>3\<close> come out of \<open>flatten\<close> as
  they went in). A node whose \<open>arguments\<close> is missing or not a dict is the invalid argument
  of section 4.2. A callback is not entered by the traversal: \<open>leaveArgument\<close> flattens it.

  \<open>leaveArgument\<close> and \<open>flatten_graph\<close> are the source's: \<open>leaveArgument\<close> rewrites
  \<open>from_node\<close> like \<open>arrayElementDone\<close> and replaces a \<open>callback\<close> by its flat graph,
  made with the same key generator; \<open>flatten_graph\<close> is \<open>flatten\<close> from the deep copy of
  the root on, with a \<open>flat_graph\<close> and a \<open>last_node_id\<close> of its own.
\<close>

function (sequential) accept :: "pyval \<Rightarrow> fstate \<Rightarrow> py_error + fstate"
  and accept_arguments :: "(string \<times> pyval) list \<Rightarrow> fstate \<Rightarrow> py_error + ((string \<times> pyval) list \<times> fstate)"
  and accept_array :: "pyval list \<Rightarrow> fstate \<Rightarrow> py_error + (pyval list \<times> fstate)"
  and accept_value :: "(string \<times> pyval) list \<Rightarrow> fstate \<Rightarrow> py_error + fstate"
  and leaveArgument :: "(string \<times> pyval) list \<Rightarrow> fstate \<Rightarrow> py_error + ((string \<times> pyval) list \<times> fstate)"
  and flatten_graph :: "pyval \<Rightarrow> keygen \<Rightarrow> py_error + ((string \<times> pyval) list \<times> keygen)"
where
  "accept (VDict node) st =
     (case map_of node ''process_id'' of
        None \<Rightarrow> Inr st
      | Some pid \<Rightarrow>
          (case map_of node ''arguments'' of
             Some (VDict arguments) \<Rightarrow>
               (case accept_arguments arguments st of
                  Inl e \<Rightarrow> Inl e
                | Inr (arguments', st') \<Rightarrow> leaveProcess pid arguments' st')
           | _ \<Rightarrow> Inl (InvalidArgument ''arguments'')))"
| "accept _ st = Inr st"
| "accept_arguments [] st = Inr ([], st)"
| "accept_arguments ((name, VList elements) # rest) st =
     (case accept_array elements st of
        Inl e \<Rightarrow> Inl e
      | Inr (elements', st') \<Rightarrow>
          (case accept_arguments rest st' of
             Inl e \<Rightarrow> Inl e
           | Inr (rest', st'') \<Rightarrow> Inr ((name, VList elements') # rest', st'')))"
| "accept_arguments ((name, VDict node) # rest) st =
     (case accept_value node st of
        Inl e \<Rightarrow> Inl e
      | Inr st1 \<Rightarrow>
          (case leaveArgument node st1 of
             Inl e \<Rightarrow> Inl e
           | Inr (node', st') \<Rightarrow>
               (case accept_arguments rest st' of
                  Inl e \<Rightarrow> Inl e
                | Inr (rest', st'') \<Rightarrow> Inr ((name, VDict node') # rest', st''))))"
| "accept_arguments ((name, v) # rest) st =
     (case accept_arguments rest st of
        Inl e \<Rightarrow> Inl e
      | Inr (rest', st') \<Rightarrow> Inr ((name, v) # rest', st'))"
| "accept_array [] st = Inr ([], st)"
| "accept_array (VDict node # rest) st =
     (case accept_value node st of
        Inl e \<Rightarrow> Inl e
      | Inr st' \<Rightarrow>
          (case accept_array rest st' of
             Inl e \<Rightarrow> Inl e
           | Inr (rest', st'') \<Rightarrow> Inr (VDict (arrayElementDone node st') # rest', st'')))"
| "accept_array (v # rest) st =
     (case accept_array rest st of
        Inl e \<Rightarrow> Inl e
      | Inr (rest', st') \<Rightarrow> Inr (v # rest', st'))"
| "accept_value node st =
     (case map_of node ''from_node'' of
        Some (VDict target) \<Rightarrow> accept (VDict target) st
      | _ \<Rightarrow> Inr st)"
| "leaveArgument node st =
     (let node1 = (if ''from_node'' \<in> dict_keys node
                   then AList.update ''from_node'' (last_node_id st) node else node) in
      case map_of node ''callback'' of
        None \<Rightarrow> Inr (node1, st)
      | Some callback \<Rightarrow>
          (case flatten_graph (deepcopy callback) (key_generator st) of
             Inl e \<Rightarrow> Inl e
           | Inr (flat_callback, kg) \<Rightarrow>
               Inr (AList.update ''callback'' (VDict flat_callback) node1, st\<lparr>key_generator := kg\<rparr>)))"
| "flatten_graph root kg =
     (case accept (deepcopy root) \<lparr>key_generator = kg, flat_graph = [], last_node_id = VNone\<rparr> of
        Inl e \<Rightarrow> Inl e
      | Inr st \<Rightarrow>
          (case mark_result st of
             Inl e \<Rightarrow> Inl e
           | Inr flat \<Rightarrow> Inr (flat, key_generator st)))"
  by pat_completeness auto
termination
  apply (relation "measure (\<lambda>x. case x of
      Inl (Inl (node, st)) \<Rightarrow> 2 * size node
    | Inl (Inr (Inl (args, st))) \<Rightarrow> 2 * size_list (size_prod (\<lambda>_. 0) size) args + 1
    | Inl (Inr (Inr (xs, st))) \<Rightarrow> 2 * size_list size xs + 1
    | Inr (Inl (node, st)) \<Rightarrow> 2 * size_list (size_prod (\<lambda>_. 0) size) node + 3
    | Inr (Inr (Inl (node, st))) \<Rightarrow> 2 * size_list (size_prod (\<lambda>_. 0) size) node + 3
    | Inr (Inr (Inr (root, kg))) \<Rightarrow> 2 * size root + 1)")
  apply (auto simp: deepcopy_def dest: map_of_size)
  done

text \<open>
  \<open>flatten(key_generator=None)\<close>: the generator is a new one when none is given;
  the result is the flat graph, and the generator as the call leaves it.
\<close>

definition flatten :: "graph_builder \<Rightarrow> keygen option \<Rightarrow> py_error + ((string \<times> pyval) list \<times> keygen)" where
  "flatten self key_generator_arg =
     (case result_node self of
        None \<Rightarrow> Inl (AttributeError ''result_node'')
      | Some root \<Rightarrow>
          flatten_graph root (case key_generator_arg of None \<Rightarrow> new_keygen | Some kg \<Rightarrow> kg))"

text \<open>The arguments of the builder's root node, for stating what \<open>add_process\<close> stores.\<close>

definition node_arguments :: "graph_builder \<Rightarrow> (string \<times> pyval) list option" where
  "node_arguments self =
     (case result_node self of
        Some (VDict node) \<Rightarrow> (case map_of node ''arguments'' of Some (VDict args) \<Rightarrow> Some args | _ \<Rightarrow> None)
      | _ \<Rightarrow> None)"

section \<open>Nested graphs\<close>

text \<open>
  The nested form of section 3 of the specification, on dicts: a process node has a string
  \<open>process_id\<close> and a dict \<open>arguments\<close>; where the traversal looks (a dict argument, a
  dict element of a list argument), what is embedded under \<open>from_node\<close> with a
  \<open>process_id\<close> is a process node again, and a \<open>callback\<close> of a dict argument is a
  nested graph of its own, rooted at a process node. Everything else is a literal.
\<close>

function (sequential) process_node :: "pyval \<Rightarrow> bool"
  and argument_values :: "(string \<times> pyval) list \<Rightarrow> bool"
  and array_elements :: "pyval list \<Rightarrow> bool"
  and reference_value :: "(string \<times> pyval) list \<Rightarrow> bool"
where
  "process_node (VDict node) =
     (case map_of node ''process_id'' of
        Some (VStr p) \<Rightarrow>
          (case map_of node ''arguments'' of
             Some (VDict arguments) \<Rightarrow> argument_values arguments
           | _ \<Rightarrow> False)
      | _ \<Rightarrow> False)"
| "process_node _ = False"
| "argument_values [] = True"
| "argument_values ((name, VList elements) # rest) = (array_elements elements \<and> argument_values rest)"
| "argument_values ((name, VDict node) # rest) =
     (reference_value node
      \<and> (case map_of node ''callback'' of None \<Rightarrow> True | Some callback \<Rightarrow> process_node callback)
      \<and> argument_values rest)"
| "argument_values ((name, v) # rest) = argument_values rest"
| "array_elements [] = True"
| "array_elements (VDict node # rest) = (reference_value node \<and> array_elements rest)"
| "array_elements (v # rest) = array_elements rest"
| "reference_value node =
     (case map_of node ''from_node'' of
        Some (VDict target) \<Rightarrow>
          (case map_of target ''process_id'' of
             None \<Rightarrow> True
           | Some _ \<Rightarrow> process_node (VDict target))
      | _ \<Rightarrow> True)"
  by pat_completeness auto
termination
  apply (relation "measure (\<lambda>x. case x of
      Inl (Inl node) \<Rightarrow> 2 * size node
    | Inl (Inr args) \<Rightarrow> 2 * size_list (size_prod (\<lambda>_. 0) size) args + 1
    | Inr (Inl xs) \<Rightarrow> 2 * size_list size xs + 1
    | Inr (Inr node) \<Rightarrow> 2 * size_list (size_prod (\<lambda>_. 0) size) node + 3)")
  apply (auto dest: map_of_size)
  done

text \<open>A node of a flat graph carries the result marker.\<close>

definition has_result :: "pyval \<Rightarrow> bool" where
  "has_result n = (case n of VDict d \<Rightarrow> ''result'' \<in> dict_keys d | _ \<Rightarrow> False)"

text \<open>
  What holds of \<open>flat_graph\<close> during a traversal: distinct keys without underscore, and
  nodes as \<open>leaveProcess\<close> stores them, without a \<open>result\<close> entry.
\<close>

definition flat_inv :: "(string \<times> pyval) list \<Rightarrow> bool" where
  "flat_inv fg \<longleftrightarrow> distinct (map fst fg)
      \<and> (\<forall>e \<in> set fg. CHR ''_'' \<notin> set (fst e) \<and> (\<exists>pid args. snd e = new_process pid args))"

declare accept_value.simps [simp del] leaveArgument.simps [simp del] flatten_graph.simps [simp del]

section \<open>openeo/internal/graphbuilder.py: \_merge\_processes, on an object store\<close>

text \<open>
  \<open>_merge_processes\<close> collects references to dicts inside the arguments it has just
  copied and mutates those dicts afterwards, when they are already part of the builder's
  nodes. Here the objects live in a store: a dict or list is a cell, addressed by its
  index, and holds scalars or references to cells; allocation appends a cell and a
  mutation in place replaces one.
\<close>

datatype hval = HNone | HBool bool | HInt int | HStr string | HBuiltinId | HRef nat

datatype hobj = HDict "(string \<times> hval) list" | HList "hval list"

type_synonym heap = "hobj list"

text \<open>Reading a cell; there is none beyond the store.\<close>

definition obj_at :: "heap \<Rightarrow> nat \<Rightarrow> hobj option" where
  "obj_at h a = (if a < length h then Some (h ! a) else None)"

text \<open>
  \<open>copy.deepcopy\<close> of a value given as a tree: every dict and list of it becomes a new
  cell, the parts before the whole.
\<close>

fun store_val :: "pyval \<Rightarrow> heap \<Rightarrow> hval \<times> heap"
  and store_items :: "(string \<times> pyval) list \<Rightarrow> heap \<Rightarrow> (string \<times> hval) list \<times> heap"
  and store_list :: "pyval list \<Rightarrow> heap \<Rightarrow> hval list \<times> heap"
where
  "store_val VNone h = (HNone, h)"
| "store_val (VBool b) h = (HBool b, h)"
| "store_val (VInt i) h = (HInt i, h)"
| "store_val (VStr s) h = (HStr s, h)"
| "store_val VBuiltinId h = (HBuiltinId, h)"
| "store_val (VList xs) h = (let (vs, h') = store_list xs h in (HRef (length h'), h' @ [HList vs]))"
| "store_val (VDict kvs) h = (let (kvs', h') = store_items kvs h in (HRef (length h'), h' @ [HDict kvs']))"
| "store_items [] h = ([], h)"
| "store_items ((k, v) # rest) h =
     (let (v', h') = store_val v h; (rest', h'') = store_items rest h' in ((k, v') # rest', h''))"
| "store_list [] h = ([], h)"
| "store_list (v # rest) h =
     (let (v', h') = store_val v h; (rest', h'') = store_list rest h' in (v' # rest', h''))"

text \<open>\<open>sub in s\<close> on strings.\<close>

definition str_contains :: "string \<Rightarrow> string \<Rightarrow> bool" where
  "str_contains sub s = list_ex (\<lambda>i. take (length sub) (drop i s) = sub) [0..<Suc (length s)]"

text \<open>
  The state of a merge: the store, \<open>self.result_node\<close> (unset for a builder made by
  \<open>GraphBuilder()\<close>) and the locals \<open>key_map\<close> and \<open>node_refs\<close>; a node reference
  is the address of its dict.
\<close>

record merge_state =
  heap :: heap
  self_result_node :: "hval option"
  key_map :: "(string \<times> hval) list"
  node_refs :: "nat list"

text \<open>
  \<open>process\<close> on the store, with the arguments dict at address \<open>args\<close>: an argument named
  \<open>from_node\<close> is overwritten in that dict with the current root, the new node is a new
  cell holding the process id and the reference to the arguments, it becomes the root, and
  the builtin \<open>id\<close> is returned.
\<close>

definition heap_process :: "hval \<Rightarrow> nat \<Rightarrow> merge_state \<Rightarrow> py_error + (hval \<times> merge_state)" where
  "heap_process process_id args st =
     (case obj_at (heap st) args of
        Some (HDict kvs) \<Rightarrow>
          (if ''from_node'' \<in> fst ` set kvs then
             (case self_result_node st of
                None \<Rightarrow> Inl (AttributeError ''result_node'')
              | Some root \<Rightarrow>
                  (let h1 = (heap st)[args := HDict (AList.update ''from_node'' root kvs)];
                       h2 = h1 @ [HDict [(''process_id'', process_id), (''arguments'', HRef args)]]
                   in Inr (HBuiltinId, st\<lparr>heap := h2, self_result_node := Some (HRef (length h1))\<rparr>)))
           else
             (let h2 = heap st @ [HDict [(''process_id'', process_id), (''arguments'', HRef args)]]
              in Inr (HBuiltinId, st\<lparr>heap := h2, self_result_node := Some (HRef (length (heap st)))\<rparr>)))
      | _ \<Rightarrow> Inl (TypeError ''arguments''))"

text \<open>
  \<open>_extract_node_references\<close>: the arguments that are dicts with \<open>from_node\<close>, and the
  elements of list arguments that are, in the order of the arguments.
\<close>

definition is_node_ref :: "heap \<Rightarrow> hval \<Rightarrow> bool" where
  "is_node_ref h v =
     (case v of
        HRef r \<Rightarrow> (case obj_at h r of Some (HDict d) \<Rightarrow> ''from_node'' \<in> fst ` set d | _ \<Rightarrow> False)
      | _ \<Rightarrow> False)"

fun ref_addr :: "hval \<Rightarrow> nat" where
  "ref_addr (HRef r) = r"
| "ref_addr _ = 0"

definition extract_argument :: "heap \<Rightarrow> hval \<Rightarrow> nat list" where
  "extract_argument h argument =
     (if is_node_ref h argument then [ref_addr argument] else [])
     @ (case argument of
          HRef r \<Rightarrow>
            (case obj_at h r of
               Some (HList elements) \<Rightarrow> map ref_addr (filter (is_node_ref h) elements)
             | _ \<Rightarrow> [])
        | _ \<Rightarrow> [])"

definition extract_node_references :: "heap \<Rightarrow> nat \<Rightarrow> py_error + nat list" where
  "extract_node_references h arguments =
     (case obj_at h arguments of
        Some (HDict kvs) \<Rightarrow> Inr (concat (map (extract_argument h) (map snd kvs)))
      | _ \<Rightarrow> Inl (AttributeError ''values''))"

text \<open>
  The first loop of \<open>_merge_processes\<close>, over the items in sorted order. \<open>process\<close>
  and \<open>_extract_node_references\<close> need \<open>arguments\<close> to be a dict; what is raised
  otherwise depends on what it is. The process id is copied into the store like the
  arguments (the source shares it with the input, which nothing mutates).
\<close>

fun merge_collect :: "(string \<times> pyval) list \<Rightarrow> merge_state \<Rightarrow> py_error + merge_state" where
  "merge_collect [] st = Inr st"
| "merge_collect ((key, proc) # rest) st =
     (case proc of
        VDict p \<Rightarrow>
          (case map_of p ''process_id'' of
             None \<Rightarrow> Inl (KeyError (VStr ''process_id''))
           | Some process_id \<Rightarrow>
               (case map_of p ''arguments'' of
                  None \<Rightarrow> Inl (KeyError (VStr ''arguments''))
                | Some (VDict args) \<Rightarrow>
                    (let (pid, h0) = store_val process_id (heap st);
                         (args_copy, h1) = store_val (VDict args) h0
                     in case heap_process pid (ref_addr args_copy) (st\<lparr>heap := h1\<rparr>) of
                          Inl e \<Rightarrow> Inl e
                        | Inr (id', st') \<Rightarrow>
                            (case extract_node_references (heap st') (ref_addr args_copy) of
                               Inl e \<Rightarrow> Inl e
                             | Inr refs \<Rightarrow>
                                 merge_collect rest
                                   (st'\<lparr>key_map := (if id' \<noteq> HStr key then AList.update key id' (key_map st')
                                                     else key_map st'),
                                        node_refs := node_refs st' @ refs\<rparr>)))
                | Some (VList xs) \<Rightarrow>
                    (if VStr ''from_node'' \<in> set xs then Inl (TypeError ''list indices must be integers'')
                     else Inl (AttributeError ''values''))
                | Some (VStr s) \<Rightarrow>
                    (if str_contains ''from_node'' s then Inl (TypeError ''item assignment'')
                     else Inl (AttributeError ''values''))
                | Some _ \<Rightarrow> Inl (TypeError ''not iterable'')))
      | _ \<Rightarrow> Inl (TypeError ''not subscriptable''))"

text \<open>
  The second loop: \<open>old_node_id in key_map\<close> hashes the old id, which fails for a dict or
  a list (a reference to a cell); a string is looked up, and any other scalar is hashable and
  not among the keys, which are strings.
\<close>

definition rewrite_ref :: "(string \<times> hval) list \<Rightarrow> nat \<Rightarrow> heap \<Rightarrow> py_error + heap" where
  "rewrite_ref km node_ref h =
     (case obj_at h node_ref of
        Some (HDict d) \<Rightarrow>
          (case map_of d ''from_node'' of
             None \<Rightarrow> Inl (KeyError (VStr ''from_node''))
           | Some (HRef _) \<Rightarrow> Inl (TypeError ''unhashable type'')
           | Some (HStr old_node_id) \<Rightarrow>
               (case map_of km old_node_id of
                  None \<Rightarrow> Inr h
                | Some new \<Rightarrow> Inr (h[node_ref := HDict (AList.update ''from_node'' new d)]))
           | Some _ \<Rightarrow> Inr h)
      | _ \<Rightarrow> Inl (TypeError ''not subscriptable''))"

fun rewrite_refs :: "(string \<times> hval) list \<Rightarrow> nat list \<Rightarrow> heap \<Rightarrow> py_error + heap" where
  "rewrite_refs km [] h = Inr h"
| "rewrite_refs km (node_ref # rest) h =
     (case rewrite_ref km node_ref h of
        Inl e \<Rightarrow> Inl e
      | Inr h' \<Rightarrow> rewrite_refs km rest h')"

text \<open>
  \<open>_merge_processes(processes)\<close> on a builder whose root is \<open>root\<close>; \<open>processes\<close> is
  the dict of the flat graph, keyed by strings. \<open>sorted\<close> compares the items by their
  keys, which are distinct. The state returned holds the builder's new root, the store and
  \<open>key_map\<close>. \<open>GraphBuilder(graph)\<close> is this call after
  \<open>self.result_node = graph.result_node\<close>.
\<close>

definition merge_processes :: "hval option \<Rightarrow> (string \<times> pyval) list \<Rightarrow> heap \<Rightarrow> py_error + merge_state" where
  "merge_processes root processes h =
     (case merge_collect (sort_key fst processes)
             \<lparr>heap = h, self_result_node = root, key_map = [], node_refs = []\<rparr> of
        Inl e \<Rightarrow> Inl e
      | Inr st \<Rightarrow>
          (case rewrite_refs (key_map st) (node_refs st) (heap st) of
             Inl e \<Rightarrow> Inl e
           | Inr h' \<Rightarrow> Inr (st\<lparr>heap := h'\<rparr>)))"

section \<open>Properties of deep\_get\<close>

lemma path_step_iff:
  "path_step d k v \<longleftrightarrow> (dict_has d k \<and> v = dict_item d k) \<or> (\<not> dict_has d k \<and> seq_has d k \<and> v = seq_item d k)"
proof
  assume "path_step d k v"
  then show "(dict_has d k \<and> v = dict_item d k) \<or> (\<not> dict_has d k \<and> seq_has d k \<and> v = seq_item d k)"
    by (induction rule: path_step.induct) (auto dest: map_of_SomeD intro: rev_image_eqI)
next
  assume a: "(dict_has d k \<and> v = dict_item d k) \<or> (\<not> dict_has d k \<and> seq_has d k \<and> v = seq_item d k)"
  show "path_step d k v"
  proof (cases d)
    case (DDict kvs)
    with a have "k \<in> fst ` set kvs" by auto
    then obtain w where "map_of kvs k = Some w"
      by (metis domIff dom_map_of_conv_image_fst not_Some_eq)
    with a DDict show ?thesis by (auto intro: path_step.intros)
  next
    case (DList xs)
    with a show ?thesis by (cases k) (auto intro: path_step.intros)
  next
    case (DTuple xs)
    with a show ?thesis by (cases k) (auto intro: path_step.intros)
  qed (use a in auto)
qed

lemma path_step_functional: "path_step d k v \<Longrightarrow> path_step d k w \<Longrightarrow> v = w"
  by (auto simp: path_step_iff)

lemma follows_functional: "follows d ks v \<Longrightarrow> follows d ks w \<Longrightarrow> v = w"
proof (induction arbitrary: w rule: follows.induct)
  case (follows_nil d)
  then show ?case by (auto elim: follows.cases)
next
  case (follows_cons d k d' ks v)
  from follows_cons.prems obtain e where e: "path_step d k e" "follows e ks w"
    by (auto elim: follows.cases)
  with follows_cons.hyps have "e = d'" by (auto dest: path_step_functional)
  with e follows_cons.IH show ?case by simp
qed

lemma follows_Cons_iff: "follows d (k # ks) v \<longleftrightarrow> (\<exists>d'. path_step d k d' \<and> follows d' ks v)"
  by (auto elim: follows.cases intro: follows.intros)

lemma follows_Nil_iff: "follows d [] v \<longleftrightarrow> v = d"
  by (auto elim: follows.cases intro: follows.intros)

lemma deep_get_loop_found:
  "deep_get_loop keys dflt d ks = Inr v \<longleftrightarrow>
     follows d ks v \<or> (\<not> (\<exists>w. follows d ks w) \<and> dflt = Some v)"
proof (induction ks arbitrary: d)
  case Nil
  then show ?case by (auto simp: follows_Nil_iff)
next
  case (Cons k ks)
  show ?case
  proof (cases "dict_has d k \<or> seq_has d k")
    case True
    define d' where "d' = (if dict_has d k then dict_item d k else seq_item d k)"
    have step: "path_step d k e \<longleftrightarrow> e = d'" for e
      using True by (auto simp: path_step_iff d'_def)
    have "deep_get_loop keys dflt d (k # ks) = deep_get_loop keys dflt d' ks"
      using True by (auto simp: d'_def)
    then show ?thesis
      by (simp add: Cons.IH follows_Cons_iff step)
  next
    case False
    then have "\<not> path_step d k e" for e
      by (auto simp: path_step_iff)
    then have "\<not> follows d (k # ks) e" for e
      by (simp add: follows_Cons_iff)
    with False show ?thesis
      by (auto split: option.splits)
  qed
qed

lemma deep_get_loop_raises:
  "(\<exists>k. deep_get_loop keys dflt d ks = Inl (DeepKeyError k keys)) \<longleftrightarrow>
     \<not> (\<exists>w. follows d ks w) \<and> dflt = None"
proof (induction ks arbitrary: d)
  case Nil
  then show ?case by (auto simp: follows_Nil_iff)
next
  case (Cons k ks)
  show ?case
  proof (cases "dict_has d k \<or> seq_has d k")
    case True
    define d' where "d' = (if dict_has d k then dict_item d k else seq_item d k)"
    have step: "path_step d k e \<longleftrightarrow> e = d'" for e
      using True by (auto simp: path_step_iff d'_def)
    have "deep_get_loop keys dflt d (k # ks) = deep_get_loop keys dflt d' ks"
      using True by (auto simp: d'_def)
    then show ?thesis
      by (simp add: Cons.IH follows_Cons_iff step)
  next
    case False
    then have "\<not> path_step d k e" for e
      by (auto simp: path_step_iff)
    then have "\<not> follows d (k # ks) e" for e
      by (simp add: follows_Cons_iff)
    with False show ?thesis
      by (auto split: option.splits)
  qed
qed

text \<open>
  C9. With no dflt, \<open>deep_get\<close> returns the value reached by following the path and
  raises \<open>DeepKeyError\<close> (carrying the whole path) exactly when no value is reached, that
  is when some step is absent; a step is present only for a dict containing the key or a
  list/tuple indexed by an int within \<open>0 \<le> i < length\<close>. With a dflt, the reached
  value is returned when there is one and the dflt otherwise, and nothing is raised.
\<close>

theorem deep_get_follows_path:
  "(deep_get d ks None = Inr v \<longleftrightarrow> follows d ks v)
   \<and> ((\<exists>k. deep_get d ks None = Inl (DeepKeyError k ks)) \<longleftrightarrow> \<not> (\<exists>w. follows d ks w))
   \<and> (deep_get d ks (Some dflt) = Inr v \<longleftrightarrow> follows d ks v \<or> (\<not> (\<exists>w. follows d ks w) \<and> v = dflt))
   \<and> (\<exists>r. deep_get d ks (Some dflt) = Inr r)"
proof -
  have 1: "deep_get d ks None = Inr v \<longleftrightarrow> follows d ks v"
    unfolding deep_get_def by (simp add: deep_get_loop_found)
  have 2: "(\<exists>k. deep_get d ks None = Inl (DeepKeyError k ks)) \<longleftrightarrow> \<not> (\<exists>w. follows d ks w)"
    unfolding deep_get_def by (simp add: deep_get_loop_raises)
  have 3: "deep_get d ks (Some dflt) = Inr v \<longleftrightarrow> follows d ks v \<or> (\<not> (\<exists>w. follows d ks w) \<and> v = dflt)"
    unfolding deep_get_def by (auto simp: deep_get_loop_found)
  have 4: "\<exists>r. deep_get d ks (Some dflt) = Inr r"
  proof (cases "\<exists>w. follows d ks w")
    case True
    then obtain w where "follows d ks w" by blast
    then have "deep_get d ks (Some dflt) = Inr w"
      unfolding deep_get_def by (simp add: deep_get_loop_found)
    then show ?thesis by blast
  next
    case False
    then have "deep_get d ks (Some dflt) = Inr dflt"
      unfolding deep_get_def by (simp add: deep_get_loop_found)
    then show ?thesis by blast
  qed
  from 1 2 3 4 show ?thesis by blast
qed

theorem deep_get_follows_path_witness:
  "deep_get (DDict [(KStr ''a'', DList [DInt 1, DInt 2])]) [KStr ''a'', KInt 1] None = Inr (DInt 2)
   \<and> follows (DDict [(KStr ''a'', DList [DInt 1, DInt 2])]) [KStr ''a'', KInt 1] (DInt 2)
   \<and> deep_get (DDict [(KStr ''a'', DList [DInt 1, DInt 2])]) [KStr ''a'', KInt (- 1)] None
       = Inl (DeepKeyError (KInt (- 1)) [KStr ''a'', KInt (- 1)])
   \<and> \<not> (\<exists>w. follows (DDict [(KStr ''a'', DList [DInt 1, DInt 2])]) [KStr ''a'', KInt (- 1)] w)
   \<and> deep_get (DDict [(KStr ''a'', DList [DInt 1, DInt 2])]) [KStr ''a'', KInt (- 1)] (Some DNone) = Inr DNone"
  using deep_get_follows_path [of "DDict [(KStr ''a'', DList [DInt 1, DInt 2])]" "[KStr ''a'', KInt 1]" "DInt 2" DNone]
    deep_get_follows_path [of "DDict [(KStr ''a'', DList [DInt 1, DInt 2])]" "[KStr ''a'', KInt (- 1)]" DNone DNone]
  by (simp add: deep_get_def)

section \<open>Properties of the key generator\<close>

text \<open>
  C1. The keys returned by one generator instance are meant to be pairwise distinct. They
  are not: \<open>a_b\<close> and \<open>ab\<close> lose their difference with the underscore and both get
  \<open>ab1\<close>; and a process \<open>ab\<close> in a callback gets the key of its parent \<open>a_b\<close>, although
  both come from the same generator.
\<close>

theorem generate_keys_collide:
  "fst (generate_all new_keygen [''a_b'', ''ab'']) = [''ab1'', ''ab1'']
   \<and> map_sum id fst (flatten \<lparr>result_node = Some (new_process (VStr ''a_b'')
          [(''reducer'', VDict [(''callback'', new_process (VStr ''ab'') [])])])\<rparr> None)
     = Inr [(''ab1'', VDict [(''process_id'', VStr ''a_b''),
                             (''arguments'', VDict [(''reducer'', VDict [(''callback'',
                                VDict [(''ab1'', VDict [(''process_id'', VStr ''ab''), (''arguments'', VDict []),
                                                        (''result'', VBool True)])])])]),
                             (''result'', VBool True)])]"
  by (simp add: generate_def new_keygen_def str_of_nat.simps digit_char_def flatten_def
      new_process_def deepcopy_def leaveProcess_def mark_result_def dict_keys_def
      accept_value.simps leaveArgument.simps flatten_graph.simps)

section \<open>Properties of add\_process\<close>

text \<open>
  C10. Whenever \<open>add_process\<close> returns (it raises only for an argument named
  \<open>from_node\<close> on a builder without a root), the new root is a dict whose \<open>result\<close>
  entry is the \<open>result\<close> passed, for every value but \<open>None\<close>, \<open>False\<close> included; for
  \<open>None\<close> the root has no \<open>result\<close> entry.
\<close>

theorem add_process_result_marker:
  assumes "''from_node'' \<in> dict_keys args \<longrightarrow> result_node self \<noteq> None"
  shows "\<exists>pid self' node. add_process self process_id r args = Inr (pid, self')
           \<and> result_node self' = Some (VDict node)
           \<and> map_of node ''result'' = (if r = VNone then None else Some r)"
  using assms
  by (auto simp: add_process_def process_def new_process_def split: option.splits)

theorem add_process_result_marker_witness:
  "''from_node'' \<notin> dict_keys [(''id'', VStr ''S2'')]
   \<and> (\<exists>pid self' node. add_process GraphBuilder (VStr ''load_collection'') (VBool False) [(''id'', VStr ''S2'')] = Inr (pid, self')
           \<and> result_node self' = Some (VDict node)
           \<and> map_of node ''result'' = Some (VBool False))"
  using add_process_result_marker [of "[(''id'', VStr ''S2'')]" GraphBuilder "VStr ''load_collection''" "VBool False"]
  by (simp add: dict_keys_def)

text \<open>
  C4, as the specification states it, fails: an argument value that is a reference
  (a dict with \<open>from_node\<close>) is stored as it is, whatever the builder's root.
\<close>

theorem add_process_keeps_reference_counterexample:
  "add_process \<lparr>result_node = Some (new_process (VStr ''load_collection'') [])\<rparr> (VStr ''filter_bands'') VNone
      [(''data'', VDict [(''from_node'', VNone)])]
   = Inr (VBuiltinId, \<lparr>result_node = Some (new_process (VStr ''filter_bands'') [(''data'', VDict [(''from_node'', VNone)])])\<rparr>)
   \<and> VDict [(''from_node'', VNone)] \<noteq> VDict [(''from_node'', new_process (VStr ''load_collection'') [])]"
  by (simp add: add_process_def process_def dict_keys_def new_process_def)

text \<open>
  C4, amended. On a builder that holds a root, \<open>add_process\<close> returns, the new root has
  the arguments passed, under the same names in the same order, except that an argument
  named \<open>from_node\<close> has the former root as its value; every other argument, a reference
  or not, is stored unchanged.
\<close>

theorem add_process_from_node_argument:
  assumes "result_node self = Some root"
  shows "\<exists>pid self' args'. add_process self process_id r args = Inr (pid, self')
           \<and> node_arguments self' = Some args'
           \<and> map fst args' = map fst args
           \<and> (''from_node'' \<in> dict_keys args \<longrightarrow> map_of args' ''from_node'' = Some root)
           \<and> (\<forall>name. name \<noteq> ''from_node'' \<longrightarrow> map_of args' name = map_of args name)"
proof (cases "''from_node'' \<in> dict_keys args")
  case True
  then have keys: "map fst (AList.update ''from_node'' root args) = map fst args"
    by (simp add: update_keys dict_keys_def)
  show ?thesis
    using assms True keys
    by (cases "r = VNone") (simp_all add: add_process_def process_def new_process_def node_arguments_def update_conv')
next
  case False
  show ?thesis
    using assms False
    by (cases "r = VNone") (simp_all add: add_process_def process_def new_process_def node_arguments_def)
qed

theorem add_process_from_node_argument_witness:
  "result_node \<lparr>result_node = Some (VStr ''root'')\<rparr> = Some (VStr ''root'')
   \<and> (\<exists>pid self' args'. add_process \<lparr>result_node = Some (VStr ''root'')\<rparr> (VStr ''p'') VNone
             [(''from_node'', VNone), (''data'', VDict [(''from_node'', VNone)])] = Inr (pid, self')
           \<and> node_arguments self' = Some args'
           \<and> map_of args' ''from_node'' = Some (VStr ''root'')
           \<and> map_of args' ''data'' = Some (VDict [(''from_node'', VNone)]))"
  using add_process_from_node_argument [of "\<lparr>result_node = Some (VStr ''root'')\<rparr>" "VStr ''root''" "VStr ''p''" VNone
      "[(''from_node'', VNone), (''data'', VDict [(''from_node'', VNone)])]"]
  by (simp add: dict_keys_def add_process_def process_def new_process_def node_arguments_def)

section \<open>Properties of flatten\<close>

lemma str_of_nat_digits: "set (str_of_nat n) \<subseteq> set ''0123456789''"
proof (induction n rule: str_of_nat.induct)
  case (1 n)
  have d: "m < 10 \<Longrightarrow> digit_char m \<in> set ''0123456789''" for m
    unfolding digit_char_def by (rule nth_mem) simp
  show ?case
  proof (cases "n < 10")
    case True
    then show ?thesis using d[of n] by (subst str_of_nat.simps) simp
  next
    case False
    have "n mod 10 < 10" by simp
    with False 1 d[of "n mod 10"] show ?thesis
      by (subst str_of_nat.simps) auto
  qed
qed

lemma generate_no_underscore: "generate kg p = (k, kg') \<Longrightarrow> CHR ''_'' \<notin> set k"
  using str_of_nat_digits[of "Suc (kg p)"]
  by (auto simp: generate_def)

lemma set_update_subset: "set (AList.update k v al) \<subseteq> insert (k, v) (set al)"
  by (induction al) auto

lemma leaveProcess_inv:
  assumes "leaveProcess pid args st = Inr st'" "flat_inv (flat_graph st)"
  shows "flat_inv (flat_graph st')"
proof -
  from assms(1) obtain p where p: "pid = VStr p"
    by (cases pid) (auto simp: leaveProcess_def)
  obtain k kg where g: "generate (key_generator st) p = (k, kg)" by fastforce
  with assms(1) p have fg: "flat_graph st' = AList.update k (new_process pid args) (flat_graph st)"
    by (auto simp: leaveProcess_def)
  have nu: "CHR ''_'' \<notin> set k" using g by (rule generate_no_underscore)
  have sub: "e \<in> set (AList.update k (new_process pid args) (flat_graph st)) \<Longrightarrow>
      e = (k, new_process pid args) \<or> e \<in> set (flat_graph st)" for e
    using set_update_subset[of k "new_process pid args" "flat_graph st"] by blast
  have "distinct (map fst (flat_graph st'))"
    using assms(2) by (simp add: fg flat_inv_def distinct_update)
  moreover have "CHR ''_'' \<notin> set (fst e) \<and> (\<exists>pid args. snd e = new_process pid args)"
    if "e \<in> set (flat_graph st')" for e
  proof -
    from sub[of e] that consider "e = (k, new_process pid args)" | "e \<in> set (flat_graph st)"
      unfolding fg by blast
    then show ?thesis
    proof cases
      case 1
      have "\<exists>pid' args'. new_process pid args = new_process pid' args'" by blast
      with 1 nu show ?thesis by simp
    next
      case 2
      with assms(2) show ?thesis unfolding flat_inv_def by blast
    qed
  qed
  ultimately show ?thesis unfolding flat_inv_def by blast
qed

lemma leaveArgument_frame:
  "leaveArgument node st = Inr (node', st') \<Longrightarrow> flat_graph st' = flat_graph st \<and> last_node_id st' = last_node_id st"
  by (auto simp: leaveArgument.simps Let_def split: option.splits sum.splits)

lemma accept_dictE:
  assumes "accept (VDict node) st = Inr st'"
  obtains (skip) "map_of node ''process_id'' = None" "st' = st"
  | (node) pid arguments arguments' st1 where
      "map_of node ''process_id'' = Some pid" "map_of node ''arguments'' = Some (VDict arguments)"
      "accept_arguments arguments st = Inr (arguments', st1)" "leaveProcess pid arguments' st1 = Inr st'"
proof (cases "map_of node ''process_id''")
  case None
  with assms skip show ?thesis by simp
next
  case (Some pid)
  show ?thesis
  proof (cases "map_of node ''arguments''")
    case None
    with Some assms show ?thesis by simp
  next
    case (Some a)
    note a = this
    show ?thesis
    proof (cases a)
      case (VDict arguments)
      with a \<open>map_of node ''process_id'' = Some pid\<close> assms node show ?thesis
        by (auto split: sum.splits)
    qed (use a \<open>map_of node ''process_id'' = Some pid\<close> assms in simp_all)
  qed
qed

lemma accept_valueE:
  assumes "accept_value node st = Inr st'"
  obtains (skip) "\<nexists>target. map_of node ''from_node'' = Some (VDict target)" "st' = st"
  | (target) target where "map_of node ''from_node'' = Some (VDict target)" "accept (VDict target) st = Inr st'"
  using assms by (auto simp: accept_value.simps split: option.splits pyval.splits)

lemma accept_inv_all:
  "\<forall>st'. accept node st = Inr st' \<longrightarrow> flat_inv (flat_graph st) \<longrightarrow> flat_inv (flat_graph st')"
  "\<forall>args' st'. accept_arguments args st = Inr (args', st') \<longrightarrow> flat_inv (flat_graph st) \<longrightarrow> flat_inv (flat_graph st')"
  "\<forall>xs' st'. accept_array xs st = Inr (xs', st') \<longrightarrow> flat_inv (flat_graph st) \<longrightarrow> flat_inv (flat_graph st')"
  "\<forall>st'. accept_value v st = Inr st' \<longrightarrow> flat_inv (flat_graph st) \<longrightarrow> flat_inv (flat_graph st')"
  "leaveArgument n st = leaveArgument n st"
  "flatten_graph root kg = flatten_graph root kg"
proof (induction node st and args st and xs st and v st and n st and root kg
    rule: accept_accept_arguments_accept_array_accept_value_leaveArgument_flatten_graph.induct)
  case (1 node st)
  show ?case
  proof (intro allI impI)
    fix st'
    assume r: "accept (VDict node) st = Inr st'" and i: "flat_inv (flat_graph st)"
    from r show "flat_inv (flat_graph st')"
    proof (cases rule: accept_dictE)
      case skip
      with i show ?thesis by simp
    next
      case (node pid arguments arguments' st1)
      from 1[OF node(1,2)] node(3) i have "flat_inv (flat_graph st1)" by blast
      with node(4) show ?thesis by (blast intro: leaveProcess_inv)
    qed
  qed
next
  case (4 name elements rest st)
  show ?case
  proof (intro allI impI)
    fix args' st'
    assume r: "accept_arguments ((name, VList elements) # rest) st = Inr (args', st')"
      and i: "flat_inv (flat_graph st)"
    from r obtain elements' st1 rest' where
      a: "accept_array elements st = Inr (elements', st1)" and
      c: "accept_arguments rest st1 = Inr (rest', st')"
      by (auto split: sum.splits)
    from 4(1) a i have "flat_inv (flat_graph st1)" by blast
    with 4(2)[OF a refl] c show "flat_inv (flat_graph st')" by blast
  qed
next
  case (5 name node rest st)
  show ?case
  proof (intro allI impI)
    fix args' st'
    assume r: "accept_arguments ((name, VDict node) # rest) st = Inr (args', st')"
      and i: "flat_inv (flat_graph st)"
    from r obtain st1 node' st2 rest' where
      a: "accept_value node st = Inr st1" and
      b: "leaveArgument node st1 = Inr (node', st2)" and
      c: "accept_arguments rest st2 = Inr (rest', st')"
      by (auto split: sum.splits)
    from 5(1) a i have "flat_inv (flat_graph st1)" by blast
    with leaveArgument_frame[OF b] have "flat_inv (flat_graph st2)" by simp
    with 5(3)[OF a b refl] c show "flat_inv (flat_graph st')" by blast
  qed
next
  case (8 node rest st)
  show ?case
  proof (intro allI impI)
    fix xs' st'
    assume r: "accept_array (VDict node # rest) st = Inr (xs', st')"
      and i: "flat_inv (flat_graph st)"
    from r obtain st1 rest' where
      a: "accept_value node st = Inr st1" and
      c: "accept_array rest st1 = Inr (rest', st')"
      by (auto split: sum.splits)
    from 8(1) a i have "flat_inv (flat_graph st1)" by blast
    with 8(2)[OF a] c show "flat_inv (flat_graph st')" by blast
  qed
next
  case (10 node st)
  show ?case
  proof (intro allI impI)
    fix st'
    assume r: "accept_value node st = Inr st'" and i: "flat_inv (flat_graph st)"
    from r show "flat_inv (flat_graph st')"
    proof (cases rule: accept_valueE)
      case skip
      with i show ?thesis by simp
    next
      case (target t)
      with 10 i show ?thesis by blast
    qed
  qed
qed (auto split: sum.splits)

lemma leaveProcess_str:
  "leaveProcess (VStr p) args st =
     Inr (st\<lparr>key_generator := (key_generator st)(p := Suc (key_generator st p)),
            last_node_id := VStr (filter (\<lambda>c. c \<noteq> CHR ''_'') p @ str_of_nat (Suc (key_generator st p))),
            flat_graph := AList.update (filter (\<lambda>c. c \<noteq> CHR ''_'') p @ str_of_nat (Suc (key_generator st p)))
                            (new_process (VStr p) args) (flat_graph st)\<rparr>)"
  by (simp add: leaveProcess_def generate_def)

lemma accept_succeeds_all:
  "(process_node node \<or> (\<forall>d. node = VDict d \<longrightarrow> map_of d ''process_id'' = None)) \<longrightarrow> (\<exists>st'. accept node st = Inr st')"
  "argument_values args \<longrightarrow> (\<exists>args' st'. accept_arguments args st = Inr (args', st'))"
  "array_elements xs \<longrightarrow> (\<exists>xs' st'. accept_array xs st = Inr (xs', st'))"
  "reference_value v \<longrightarrow> (\<exists>st'. accept_value v st = Inr st')"
  "(case map_of n ''callback'' of None \<Rightarrow> True | Some callback \<Rightarrow> process_node callback)
     \<longrightarrow> (\<exists>n' st'. leaveArgument n st = Inr (n', st'))"
  "process_node root \<longrightarrow> (\<exists>flat kg'. flatten_graph root kg = Inr (flat, kg'))"
proof (induction node st and args st and xs st and v st and n st and root kg
    rule: accept_accept_arguments_accept_array_accept_value_leaveArgument_flatten_graph.induct)
  case (1 node st)
  show ?case
  proof
    assume a: "process_node (VDict node) \<or> (\<forall>d. VDict node = VDict d \<longrightarrow> map_of d ''process_id'' = None)"
    show "\<exists>st'. accept (VDict node) st = Inr st'"
    proof (cases "map_of node ''process_id''")
      case None
      then show ?thesis by simp
    next
      case (Some pid)
      with a have pn: "process_node (VDict node)" by auto
      with Some obtain p arguments where
        p: "pid = VStr p" and ar: "map_of node ''arguments'' = Some (VDict arguments)"
        and av: "argument_values arguments"
        by (auto split: option.splits pyval.splits)
      from 1[OF Some ar] av obtain arguments' st1 where
        "accept_arguments arguments st = Inr (arguments', st1)" by blast
      with Some p ar show ?thesis by (simp add: leaveProcess_str)
    qed
  qed
next
  case (4 name elements rest st)
  show ?case
  proof
    assume a: "argument_values ((name, VList elements) # rest)"
    with 4(1) obtain elements' st1 where e: "accept_array elements st = Inr (elements', st1)"
      by auto
    from 4(2)[OF e refl] a obtain rest' st' where "accept_arguments rest st1 = Inr (rest', st')"
      by auto
    with e show "\<exists>args' st'. accept_arguments ((name, VList elements) # rest) st = Inr (args', st')"
      by simp
  qed
next
  case (5 name node rest st)
  show ?case
  proof
    assume a: "argument_values ((name, VDict node) # rest)"
    with 5(1) obtain st1 where e: "accept_value node st = Inr st1"
      by auto
    from 5(2)[OF e] a obtain node' st2 where l: "leaveArgument node st1 = Inr (node', st2)"
      by auto
    from 5(3)[OF e l refl] a obtain rest' st' where "accept_arguments rest st2 = Inr (rest', st')"
      by auto
    with e l show "\<exists>args' st'. accept_arguments ((name, VDict node) # rest) st = Inr (args', st')"
      by simp
  qed
next
  case (8 node rest st)
  show ?case
  proof
    assume a: "array_elements (VDict node # rest)"
    with 8(1) obtain st1 where e: "accept_value node st = Inr st1"
      by auto
    from 8(2)[OF e] a obtain rest' st' where "accept_array rest st1 = Inr (rest', st')"
      by auto
    with e show "\<exists>xs' st'. accept_array (VDict node # rest) st = Inr (xs', st')"
      by simp
  qed
next
  case (10 node st)
  show ?case
  proof
    assume a: "reference_value node"
    show "\<exists>st'. accept_value node st = Inr st'"
    proof (cases "\<exists>target. map_of node ''from_node'' = Some (VDict target)")
      case True
      then obtain target where t: "map_of node ''from_node'' = Some (VDict target)" by blast
      with a have "process_node (VDict target) \<or> map_of target ''process_id'' = None"
        by (auto split: option.splits)
      with 10[OF t] t show ?thesis by (auto simp: accept_value.simps)
    next
      case False
      then show ?thesis by (auto simp: accept_value.simps split: option.splits pyval.splits)
    qed
  qed
next
  case (11 node st)
  show ?case
  proof
    assume a: "case map_of node ''callback'' of None \<Rightarrow> True | Some callback \<Rightarrow> process_node callback"
    show "\<exists>n' st'. leaveArgument node st = Inr (n', st')"
    proof (cases "map_of node ''callback''")
      case None
      then show ?thesis by (simp add: leaveArgument.simps Let_def)
    next
      case (Some callback)
      with a have "process_node (deepcopy callback)" by (simp add: deepcopy_def)
      with 11[OF refl Some] obtain flat kg' where
        "flatten_graph (deepcopy callback) (key_generator st) = Inr (flat, kg')" by blast
      with Some show ?thesis by (simp add: leaveArgument.simps Let_def)
    qed
  qed
next
  case (12 root kg)
  show ?case
  proof
    assume a: "process_node root"
    then obtain node where n: "root = VDict node" by (cases root) auto
    from a 12 obtain st where
      st: "accept (VDict node) \<lparr>key_generator = kg, flat_graph = [], last_node_id = VNone\<rparr> = Inr st"
      by (auto simp: deepcopy_def n)
    from a n obtain pid where "map_of node ''process_id'' = Some pid"
      by (auto split: option.splits)
    with st obtain p arguments' st1 where
      l: "leaveProcess (VStr p) arguments' st1 = Inr st"
      using a n by (cases rule: accept_dictE) (auto split: option.splits pyval.splits)
    then have "\<exists>flat. mark_result st = Inr flat"
      by (auto simp: leaveProcess_str mark_result_def update_conv' new_process_def)
    with st n show "\<exists>flat kg'. flatten_graph root kg = Inr (flat, kg')"
      by (auto simp: flatten_graph.simps deepcopy_def)
  qed
qed (auto split: sum.splits)

lemma filter_update_single:
  "distinct (map fst al) \<Longrightarrow> map_of al k = Some v \<Longrightarrow> \<forall>e \<in> set al. \<not> P (snd e) \<Longrightarrow> P v'
     \<Longrightarrow> filter (\<lambda>e. P (snd e)) (AList.update k v' al) = [(k, v')]"
proof (induction al)
  case Nil
  then show ?case by simp
next
  case (Cons a al)
  obtain k0 v0 where a: "a = (k0, v0)" by (cases a)
  show ?case
  proof (cases "k0 = k")
    case True
    with Cons.prems a have "filter (\<lambda>e. P (snd e)) al = []"
      by (auto simp: filter_empty_conv)
    with True a Cons.prems show ?thesis by simp
  next
    case False
    with Cons a show ?thesis by auto
  qed
qed

lemma new_process_no_result: "\<not> has_result (new_process pid args)"
  by (simp add: has_result_def new_process_def dict_keys_def)

lemma flatten_graph_root:
  assumes "process_node root"
  shows "\<exists>d p st flat node.
           root = VDict d \<and> map_of d ''process_id'' = Some (VStr p)
         \<and> accept (deepcopy root) \<lparr>key_generator = kg, flat_graph = [], last_node_id = VNone\<rparr> = Inr st
         \<and> last_node_id st = VStr (filter (\<lambda>c. c \<noteq> CHR ''_'') p @ str_of_nat (key_generator st p))
         \<and> flatten_graph root kg = Inr (flat, key_generator st)
         \<and> filter (\<lambda>e. has_result (snd e)) flat
              = [(filter (\<lambda>c. c \<noteq> CHR ''_'') p @ str_of_nat (key_generator st p), VDict node)]
         \<and> map_of node ''result'' = Some (VBool True)"
proof -
  let ?init = "\<lparr>key_generator = kg, flat_graph = [], last_node_id = VNone\<rparr>"
  from assms obtain d where d: "root = VDict d" by (cases root) auto
  from assms d obtain p arguments where
    p: "map_of d ''process_id'' = Some (VStr p)" and ar: "map_of d ''arguments'' = Some (VDict arguments)"
    by (auto split: option.splits pyval.splits)
  from accept_succeeds_all(1)[of root ?init] assms obtain st where
    st: "accept (VDict d) ?init = Inr st" by (auto simp: d)
  from st p obtain arguments' st1 where
    a1: "accept_arguments arguments ?init = Inr (arguments', st1)" and
    l: "leaveProcess (VStr p) arguments' st1 = Inr st"
    using ar by (cases rule: accept_dictE) auto
  let ?k = "filter (\<lambda>c. c \<noteq> CHR ''_'') p @ str_of_nat (Suc (key_generator st1 p))"
  from l have kg: "key_generator st p = Suc (key_generator st1 p)"
    and last: "last_node_id st = VStr ?k"
    and fg: "flat_graph st = AList.update ?k (new_process (VStr p) arguments') (flat_graph st1)"
    by (auto simp: leaveProcess_str)
  have "flat_inv (flat_graph ?init)" by (simp add: flat_inv_def)
  with accept_inv_all(1)[of "VDict d" ?init] st have inv: "flat_inv (flat_graph st)" by blast
  have look: "map_of (flat_graph st) ?k = Some (new_process (VStr p) arguments')"
    by (simp add: fg update_conv')
  let ?node = "[(''process_id'', VStr p), (''arguments'', VDict arguments'), (''result'', VBool True)]"
  have mark: "mark_result st = Inr (AList.update ?k (VDict ?node) (flat_graph st))"
    by (simp add: mark_result_def last look) (simp add: new_process_def)
  have nores: "\<forall>e \<in> set (flat_graph st). \<not> has_result (snd e)"
    using inv new_process_no_result unfolding flat_inv_def by metis
  have "has_result (VDict ?node)" by (simp add: has_result_def dict_keys_def)
  with inv look nores have filt:
    "filter (\<lambda>e. has_result (snd e)) (AList.update ?k (VDict ?node) (flat_graph st)) = [(?k, VDict ?node)]"
    by (intro filter_update_single) (auto simp: flat_inv_def)
  have fl: "flatten_graph root kg = Inr (AList.update ?k (VDict ?node) (flat_graph st), key_generator st)"
    using st mark by (simp add: flatten_graph.simps d deepcopy_def)
  show ?thesis
    using d p st last fl filt kg by (simp add: deepcopy_def)
qed

text \<open>
  C3. For every nested graph (a root process node), \<open>flatten\<close> returns a flat graph in
  which exactly one entry has a \<open>result\<close> entry; its value is \<open>True\<close>, and its key is
  \<open>last_node_id\<close> as the traversal leaves it, which is the key made for the root: the
  root's process id without underscores followed by the generator's final count for that id.
\<close>

theorem flatten_marks_root_only:
  assumes "process_node root"
  shows "\<exists>d p st flat node.
           root = VDict d \<and> map_of d ''process_id'' = Some (VStr p)
         \<and> accept (deepcopy root)
              \<lparr>key_generator = (case key_generator_arg of None \<Rightarrow> new_keygen | Some kg \<Rightarrow> kg),
               flat_graph = [], last_node_id = VNone\<rparr> = Inr st
         \<and> last_node_id st = VStr (filter (\<lambda>c. c \<noteq> CHR ''_'') p @ str_of_nat (key_generator st p))
         \<and> flatten \<lparr>result_node = Some root\<rparr> key_generator_arg = Inr (flat, key_generator st)
         \<and> filter (\<lambda>e. has_result (snd e)) flat
              = [(filter (\<lambda>c. c \<noteq> CHR ''_'') p @ str_of_nat (key_generator st p), VDict node)]
         \<and> map_of node ''result'' = Some (VBool True)"
  using flatten_graph_root[OF assms, of "case key_generator_arg of None \<Rightarrow> new_keygen | Some kg \<Rightarrow> kg"]
  by (simp add: flatten_def)

theorem flatten_marks_root_only_witness:
  "process_node (new_process (VStr ''filter_bands'')
      [(''data'', VDict [(''from_node'', new_process (VStr ''load_collection'') [(''id'', VStr ''S2'')])]),
       (''bands'', VList [VStr ''B02''])])
   \<and> (\<exists>d p st flat node.
           new_process (VStr ''filter_bands'')
             [(''data'', VDict [(''from_node'', new_process (VStr ''load_collection'') [(''id'', VStr ''S2'')])]),
              (''bands'', VList [VStr ''B02''])] = VDict d
         \<and> map_of d ''process_id'' = Some (VStr p)
         \<and> accept (deepcopy (new_process (VStr ''filter_bands'')
             [(''data'', VDict [(''from_node'', new_process (VStr ''load_collection'') [(''id'', VStr ''S2'')])]),
              (''bands'', VList [VStr ''B02''])]))
              \<lparr>key_generator = (case None of None \<Rightarrow> new_keygen | Some kg \<Rightarrow> kg),
               flat_graph = [], last_node_id = VNone\<rparr> = Inr st
         \<and> last_node_id st = VStr (filter (\<lambda>c. c \<noteq> CHR ''_'') p @ str_of_nat (key_generator st p))
         \<and> flatten \<lparr>result_node = Some (new_process (VStr ''filter_bands'')
             [(''data'', VDict [(''from_node'', new_process (VStr ''load_collection'') [(''id'', VStr ''S2'')])]),
              (''bands'', VList [VStr ''B02''])])\<rparr> None = Inr (flat, key_generator st)
         \<and> filter (\<lambda>e. has_result (snd e)) flat
              = [(filter (\<lambda>c. c \<noteq> CHR ''_'') p @ str_of_nat (key_generator st p), VDict node)]
         \<and> map_of node ''result'' = Some (VBool True))"
proof -
  have h: "process_node (new_process (VStr ''filter_bands'')
      [(''data'', VDict [(''from_node'', new_process (VStr ''load_collection'') [(''id'', VStr ''S2'')])]),
       (''bands'', VList [VStr ''B02''])])"
    by (simp add: new_process_def)
  from h flatten_marks_root_only [OF h, of None] show ?thesis by (rule conjI)
qed

lemma mark_result_keys:
  assumes "mark_result st = Inr flat"
  shows "fst ` set flat = fst ` set (flat_graph st)"
proof -
  from assms obtain k node node' where
    "map_of (flat_graph st) k = Some node" and f: "flat = AList.update k node' (flat_graph st)"
    by (auto simp: mark_result_def split: pyval.splits option.splits sum.splits)
  then have "k \<in> fst ` set (flat_graph st)"
    by (metis domI dom_map_of_conv_image_fst)
  then show ?thesis unfolding f by (auto simp: dom_update)
qed

lemma flatten_graph_keys:
  assumes "flatten_graph root kg = Inr (flat, kg')"
  shows "\<forall>k \<in> fst ` set flat. CHR ''_'' \<notin> set k"
proof -
  let ?init = "\<lparr>key_generator = kg, flat_graph = [], last_node_id = VNone\<rparr>"
  from assms obtain st where st: "accept root ?init = Inr st" and m: "mark_result st = Inr flat"
    by (auto simp: flatten_graph.simps deepcopy_def split: sum.splits)
  have "flat_inv (flat_graph ?init)" by (simp add: flat_inv_def)
  with accept_inv_all(1)[of root ?init] st have "flat_inv (flat_graph st)" by blast
  then have "\<forall>k \<in> fst ` set (flat_graph st). CHR ''_'' \<notin> set k"
    unfolding flat_inv_def by auto
  with mark_result_keys[OF m] show ?thesis by simp
qed

text \<open>
  C8, amended. \<open>from_process_graph\<close> keeps the flat graph as it is, as the root of the new
  builder, and flattening that builder raises: a flat graph is keyed by generated keys,
  which have no underscore, so it has no \<open>process_id\<close>, the traversal leaves no process
  and \<open>flat_graph[None]\<close> is a \<open>KeyError\<close>.
\<close>

theorem flatten_of_flat_graph_fails:
  assumes "flatten self kg1 = Inr (flat, kg')"
  shows "result_node (from_process_graph (VDict flat)) = Some (VDict flat)
         \<and> flatten (from_process_graph (VDict flat)) kg2 = Inl (KeyError VNone)"
proof -
  from assms obtain root kg where "flatten_graph root kg = Inr (flat, kg')"
    by (auto simp: flatten_def split: option.splits)
  from flatten_graph_keys[OF this] have "''process_id'' \<notin> fst ` set flat"
    by fastforce
  then have "map_of flat ''process_id'' = None"
    by (simp add: map_of_eq_None_iff)
  then show ?thesis
    by (simp add: from_process_graph_def GraphBuilder_def deepcopy_def flatten_def
        flatten_graph.simps mark_result_def)
qed

theorem flatten_of_flat_graph_fails_witness:
  "map_sum id fst (flatten \<lparr>result_node = Some (new_process (VStr ''load_collection'') [(''id'', VStr ''S2'')])\<rparr> None)
     = Inr [(''loadcollection1'', VDict [(''process_id'', VStr ''load_collection''),
                                         (''arguments'', VDict [(''id'', VStr ''S2'')]), (''result'', VBool True)])]
   \<and> flatten (from_process_graph (VDict [(''loadcollection1'', VDict [(''process_id'', VStr ''load_collection''),
                                         (''arguments'', VDict [(''id'', VStr ''S2'')]), (''result'', VBool True)])])) None
     = Inl (KeyError VNone)"
proof -
  let ?b = "\<lparr>result_node = Some (new_process (VStr ''load_collection'') [(''id'', VStr ''S2'')])\<rparr>"
  let ?flat = "[(''loadcollection1'', VDict [(''process_id'', VStr ''load_collection''),
                                         (''arguments'', VDict [(''id'', VStr ''S2'')]), (''result'', VBool True)])]"
  have e: "flatten ?b None = Inr (?flat, snd (projr (flatten ?b None)))"
    by (simp add: generate_def new_keygen_def str_of_nat.simps digit_char_def flatten_def
      new_process_def deepcopy_def leaveProcess_def mark_result_def dict_keys_def
      accept_value.simps leaveArgument.simps flatten_graph.simps)
  from flatten_of_flat_graph_fails[OF e, of None] e show ?thesis
    by (metis (no_types, lifting) fst_conv id_apply map_sum.simps(2))
qed

text \<open>
  C8, as the specification states it, fails: the flat graph of a single node, lifted and
  flattened again, gives no flat graph.
\<close>

theorem reflatten_counterexample:
  "flatten (from_process_graph (VDict [(''loadcollection1'', VDict [(''process_id'', VStr ''load_collection''),
                                         (''arguments'', VDict [(''id'', VStr ''S2'')]), (''result'', VBool True)])])) None
     = Inl (KeyError VNone)
   \<and> map_sum id fst (flatten \<lparr>result_node = Some (new_process (VStr ''load_collection'') [(''id'', VStr ''S2'')])\<rparr> None)
     = Inr [(''loadcollection1'', VDict [(''process_id'', VStr ''load_collection''),
                                         (''arguments'', VDict [(''id'', VStr ''S2'')]), (''result'', VBool True)])]"
  by (simp add: generate_def new_keygen_def str_of_nat.simps digit_char_def flatten_def
      new_process_def deepcopy_def leaveProcess_def mark_result_def dict_keys_def
      accept_value.simps leaveArgument.simps flatten_graph.simps from_process_graph_def GraphBuilder_def)

section \<open>Properties of combine\<close>

text \<open>
  C5. Two single nodes combined under \<open>sum\<close> should flatten to three entries. With the
  process ids \<open>a_b\<close> and \<open>ab\<close> the two nodes get the same key \<open>ab1\<close>: the flat graph
  has two entries, the second node has replaced the first, and both references of \<open>sum\<close>
  point at it.
\<close>

theorem combine_flatten_collides:
  "(case combine (VStr ''sum'') \<lparr>result_node = Some (new_process (VStr ''a_b'') [])\<rparr>
            \<lparr>result_node = Some (new_process (VStr ''ab'') [])\<rparr> ''data'' of
      Inl e \<Rightarrow> Inl e
    | Inr merged \<Rightarrow> map_sum id fst (flatten merged None))
   = Inr [(''ab1'', VDict [(''process_id'', VStr ''ab''), (''arguments'', VDict [])]),
          (''sum1'', VDict [(''process_id'', VStr ''sum''),
                            (''arguments'', VDict [(''data'', VList [VDict [(''from_node'', VStr ''ab1'')],
                                                                     VDict [(''from_node'', VStr ''ab1'')]])]),
                            (''result'', VBool True)])]"
  by (simp add: combine_def add_process_def process_def GraphBuilder_def
      generate_def new_keygen_def str_of_nat.simps digit_char_def flatten_def
      new_process_def deepcopy_def leaveProcess_def mark_result_def dict_keys_def arrayElementDone_def
      accept_value.simps leaveArgument.simps flatten_graph.simps)

section \<open>Properties of \_merge\_processes\<close>

lemma heap_process_id: "heap_process pid a st = Inr (i, st') \<Longrightarrow> i = HBuiltinId \<and> key_map st' = key_map st"
  by (auto simp: heap_process_def Let_def split: option.splits hobj.splits if_splits)

lemma merge_collect_ConsE:
  assumes "merge_collect ((key, proc) # rest) st = Inr st'"
  obtains p process_id args pid h0 args_copy h1 st1 refs where
    "proc = VDict p" "map_of p ''process_id'' = Some process_id" "map_of p ''arguments'' = Some (VDict args)"
    "store_val process_id (heap st) = (pid, h0)" "store_val (VDict args) h0 = (args_copy, h1)"
    "heap_process pid (ref_addr args_copy) (st\<lparr>heap := h1\<rparr>) = Inr (HBuiltinId, st1)"
    "extract_node_references (heap st1) (ref_addr args_copy) = Inr refs"
    "merge_collect rest (st1\<lparr>key_map := AList.update key HBuiltinId (key_map st1),
                               node_refs := node_refs st1 @ refs\<rparr>) = Inr st'"
proof -
  from assms obtain p where p: "proc = VDict p" by (cases proc) simp_all
  from assms p obtain process_id where pid: "map_of p ''process_id'' = Some process_id"
    by (cases "map_of p ''process_id''") simp_all
  from assms p pid obtain a where a: "map_of p ''arguments'' = Some a"
    by (cases "map_of p ''arguments''") simp_all
  have "\<exists>args. a = VDict args"
  proof (cases a)
    case (VDict args)
    then show ?thesis by simp
  qed (use assms p pid a in \<open>simp_all split: if_splits\<close>)
  then obtain args where args: "a = VDict args" by blast
  obtain pid' h0 where s0: "store_val process_id (heap st) = (pid', h0)" by fastforce
  obtain args_copy h1 where s1: "store_val (VDict args) h0 = (args_copy, h1)" by fastforce
  have eq: "merge_collect ((key, proc) # rest) st =
      (case heap_process pid' (ref_addr args_copy) (st\<lparr>heap := h1\<rparr>) of
         Inl e \<Rightarrow> Inl e
       | Inr (id', st') \<Rightarrow>
           (case extract_node_references (heap st') (ref_addr args_copy) of
              Inl e \<Rightarrow> Inl e
            | Inr refs \<Rightarrow>
                merge_collect rest
                  (st'\<lparr>key_map := (if id' \<noteq> HStr key then AList.update key id' (key_map st') else key_map st'),
                       node_refs := node_refs st' @ refs\<rparr>)))"
    by (simp only: p merge_collect.simps pyval.case pid a args option.case s0 s1 Let_def prod.case)
  from assms eq obtain i st1 where hp: "heap_process pid' (ref_addr args_copy) (st\<lparr>heap := h1\<rparr>) = Inr (i, st1)"
    by (cases "heap_process pid' (ref_addr args_copy) (st\<lparr>heap := h1\<rparr>)") auto
  from heap_process_id[OF hp] have i: "i = HBuiltinId" by simp
  from assms eq hp i obtain refs where ex: "extract_node_references (heap st1) (ref_addr args_copy) = Inr refs"
    by (cases "extract_node_references (heap st1) (ref_addr args_copy)") auto
  from assms eq hp i ex have
    "merge_collect rest (st1\<lparr>key_map := AList.update key HBuiltinId (key_map st1),
                               node_refs := node_refs st1 @ refs\<rparr>) = Inr st'"
    by simp
  with that p pid a args s0 s1 hp i ex show ?thesis by blast
qed

lemma merge_collect_key_map:
  "merge_collect items st = Inr st' \<Longrightarrow>
     fst ` set (key_map st') \<subseteq> fst ` set (key_map st) \<union> fst ` set items
     \<and> ((\<forall>v \<in> snd ` set (key_map st). v = HBuiltinId) \<longrightarrow> (\<forall>v \<in> snd ` set (key_map st'). v = HBuiltinId))"
proof (induction items arbitrary: st)
  case Nil
  then show ?case by simp
next
  case (Cons item items)
  obtain key proc where item: "item = (key, proc)" by (cases item)
  from Cons.prems[unfolded item] obtain pid args_copy h1 st1 refs where
    hp: "heap_process pid (ref_addr args_copy) (st\<lparr>heap := h1\<rparr>) = Inr (HBuiltinId, st1)" and
    rest: "merge_collect items (st1\<lparr>key_map := AList.update key HBuiltinId (key_map st1),
                               node_refs := node_refs st1 @ refs\<rparr>) = Inr st'"
    by (rule merge_collect_ConsE)
  from heap_process_id[OF hp] have km: "key_map st1 = key_map st" by simp
  let ?st2 = "st1\<lparr>key_map := AList.update key HBuiltinId (key_map st1), node_refs := node_refs st1 @ refs\<rparr>"
  have k2: "fst ` set (key_map ?st2) = insert key (fst ` set (key_map st))"
    by (simp add: dom_update km)
  have v2: "(\<forall>v \<in> snd ` set (key_map st). v = HBuiltinId) \<Longrightarrow> (\<forall>v \<in> snd ` set (key_map ?st2). v = HBuiltinId)"
    using set_update_subset[of key HBuiltinId "key_map st"] by (fastforce simp: km)
  from Cons.IH[OF rest] have
    A: "fst ` set (key_map st') \<subseteq> fst ` set (key_map ?st2) \<union> fst ` set items" and
    B: "(\<forall>v \<in> snd ` set (key_map ?st2). v = HBuiltinId) \<longrightarrow> (\<forall>v \<in> snd ` set (key_map st'). v = HBuiltinId)"
    by blast+
  show ?case
  proof (intro conjI impI)
    from A have "fst ` set (key_map st') \<subseteq> insert key (fst ` set (key_map st)) \<union> fst ` set items"
      unfolding k2 .
    then show "fst ` set (key_map st') \<subseteq> fst ` set (key_map st) \<union> fst ` set (item # items)"
      unfolding item by auto
  next
    assume "\<forall>v \<in> snd ` set (key_map st). v = HBuiltinId"
    from B v2[OF this] show "\<forall>v \<in> snd ` set (key_map st'). v = HBuiltinId" by blast
  qed
qed

lemma obj_at_update: "obj_at (h[r := x]) a = (if a = r \<and> r < length h then Some x else obj_at h a)"
  by (simp add: obj_at_def)

lemma rewrite_ref_cases:
  assumes "obj_at h r = Some (HDict d)" "map_of d ''from_node'' = Some v" "\<forall>a. v \<noteq> HRef a"
  shows "rewrite_ref km r h = Inr h
         \<or> (\<exists>k new. v = HStr k \<and> map_of km k = Some new
              \<and> rewrite_ref km r h = Inr (h[r := HDict (AList.update ''from_node'' new d)]))"
  using assms by (cases v) (auto simp: rewrite_ref_def split: option.splits)

lemma rewrite_refs_pass:
  assumes "\<forall>r \<in> set refs. \<exists>d v. obj_at h r = Some (HDict d) \<and> map_of d ''from_node'' = Some v \<and> (\<forall>a. v \<noteq> HRef a)"
    and "\<forall>v \<in> snd ` set km. \<forall>a. v \<noteq> HRef a"
  shows "\<exists>h'. rewrite_refs km refs h = Inr h'
           \<and> (\<forall>a d k. obj_at h a = Some (HDict d) \<and> map_of d ''from_node'' = Some (HStr k) \<and> map_of km k = None
                  \<longrightarrow> obj_at h' a = Some (HDict d))"
  using assms(1)
proof (induction refs arbitrary: h)
  case Nil
  then show ?case by simp
next
  case (Cons r refs)
  from Cons.prems obtain d v where
    r: "obj_at h r = Some (HDict d)" "map_of d ''from_node'' = Some v" "\<forall>a. v \<noteq> HRef a"
    by auto
  from rewrite_ref_cases[OF r, of km] show ?case
  proof
    assume same: "rewrite_ref km r h = Inr h"
    from Cons.IH[of h] Cons.prems obtain h' where
      "rewrite_refs km refs h = Inr h'"
      "\<forall>a d k. obj_at h a = Some (HDict d) \<and> map_of d ''from_node'' = Some (HStr k) \<and> map_of km k = None
                  \<longrightarrow> obj_at h' a = Some (HDict d)"
      by auto
    with same show ?thesis by simp
  next
    assume "\<exists>k new. v = HStr k \<and> map_of km k = Some new
              \<and> rewrite_ref km r h = Inr (h[r := HDict (AList.update ''from_node'' new d)])"
    then obtain k new where v: "v = HStr k" and new: "map_of km k = Some new"
      and step: "rewrite_ref km r h = Inr (h[r := HDict (AList.update ''from_node'' new d)])"
      by blast
    let ?h1 = "h[r := HDict (AList.update ''from_node'' new d)]"
    from new have "new \<in> snd ` set km" by (metis map_of_SomeD snd_conv image_eqI)
    with assms(2) have hn: "\<forall>a. new \<noteq> HRef a" by blast
    from r(1) have rl: "r < length h" by (auto simp: obj_at_def split: if_splits)
    have pre: "\<forall>r' \<in> set refs. \<exists>d v. obj_at ?h1 r' = Some (HDict d) \<and> map_of d ''from_node'' = Some v \<and> (\<forall>a. v \<noteq> HRef a)"
    proof
      fix r' assume r': "r' \<in> set refs"
      show "\<exists>d v. obj_at ?h1 r' = Some (HDict d) \<and> map_of d ''from_node'' = Some v \<and> (\<forall>a. v \<noteq> HRef a)"
      proof (cases "r' = r")
        case True
        with rl hn show ?thesis by (auto simp: obj_at_update update_conv')
      next
        case False
        with Cons.prems r' show ?thesis by (auto simp: obj_at_update)
      qed
    qed
    from Cons.IH[OF pre] obtain h' where
      h': "rewrite_refs km refs ?h1 = Inr h'" and
      keep: "\<forall>a d k. obj_at ?h1 a = Some (HDict d) \<and> map_of d ''from_node'' = Some (HStr k) \<and> map_of km k = None
                  \<longrightarrow> obj_at h' a = Some (HDict d)"
      by blast
    have "obj_at h' a = Some (HDict d')"
      if a: "obj_at h a = Some (HDict d')" "map_of d' ''from_node'' = Some (HStr k')" "map_of km k' = None"
      for a d' k'
    proof -
      have "a \<noteq> r" using a r v new by auto
      then have "obj_at ?h1 a = Some (HDict d')" using a(1) by (simp add: obj_at_update)
      with keep a show ?thesis by blast
    qed
    with step h' show ?thesis by auto
  qed
qed


text \<open>
  C7, amended. Once the first loop is through and every reference it has found holds a
  string (a key of the source graph or not), the merge returns, and every dict that holds
  under \<open>from_node\<close> a string that is no key of the source graph is after the merge what it
  was before the rewriting: the unresolved reference is passed through, and nothing is
  raised.
\<close>

theorem merge_keeps_unresolved_references:
  assumes "merge_collect (sort_key fst processes)
             \<lparr>heap = h, self_result_node = root, key_map = [], node_refs = []\<rparr> = Inr st"
    and "\<forall>r \<in> set (node_refs st). \<exists>d k. obj_at (heap st) r = Some (HDict d) \<and> map_of d ''from_node'' = Some (HStr k)"
  shows "\<exists>st'. merge_processes root processes h = Inr st'
           \<and> (\<forall>a d k. obj_at (heap st) a = Some (HDict d) \<and> map_of d ''from_node'' = Some (HStr k)
                  \<and> k \<notin> fst ` set processes \<longrightarrow> obj_at (heap st') a = Some (HDict d))"
proof -
  let ?init = "\<lparr>heap = h, self_result_node = root, key_map = [], node_refs = []\<rparr>"
  from merge_collect_key_map[OF assms(1)] have
    dom: "fst ` set (key_map st) \<subseteq> fst ` set processes" and
    vals: "\<forall>v \<in> snd ` set (key_map st). v = HBuiltinId"
    by simp_all
  from vals have hashable: "\<forall>v \<in> snd ` set (key_map st). \<forall>a. v \<noteq> HRef a" by auto
  from assms(2) have refs:
    "\<forall>r \<in> set (node_refs st). \<exists>d v. obj_at (heap st) r = Some (HDict d) \<and> map_of d ''from_node'' = Some v \<and> (\<forall>a. v \<noteq> HRef a)"
    by fastforce
  from rewrite_refs_pass[OF refs hashable] obtain h' where
    h': "rewrite_refs (key_map st) (node_refs st) (heap st) = Inr h'" and
    keep: "\<forall>a d k. obj_at (heap st) a = Some (HDict d) \<and> map_of d ''from_node'' = Some (HStr k)
              \<and> map_of (key_map st) k = None \<longrightarrow> obj_at h' a = Some (HDict d)"
    by blast
  have none: "k \<notin> fst ` set processes \<Longrightarrow> map_of (key_map st) k = None" for k
    using dom by (meson map_of_eq_None_iff subsetD)
  have "merge_processes root processes h = Inr (st\<lparr>heap := h'\<rparr>)"
    using assms(1) h' by (simp add: merge_processes_def)
  moreover have "\<forall>a d k. obj_at (heap st) a = Some (HDict d) \<and> map_of d ''from_node'' = Some (HStr k)
                  \<and> k \<notin> fst ` set processes \<longrightarrow> obj_at (heap (st\<lparr>heap := h'\<rparr>)) a = Some (HDict d)"
    using keep none by simp
  ultimately show ?thesis by blast
qed

theorem merge_keeps_unresolved_references_witness:
  "merge_collect (sort_key fst
       [(''filterbands1'', new_process (VStr ''filter_bands'') [(''data'', VDict [(''from_node'', VStr ''loadcollection1'')])])])
     \<lparr>heap = [], self_result_node = None, key_map = [], node_refs = []\<rparr>
   = Inr \<lparr>heap = [HDict [(''from_node'', HStr ''loadcollection1'')],
                  HDict [(''data'', HRef 0)],
                  HDict [(''process_id'', HStr ''filter_bands''), (''arguments'', HRef 1)]],
          self_result_node = Some (HRef 2),
          key_map = [(''filterbands1'', HBuiltinId)],
          node_refs = [0]\<rparr>
   \<and> (\<exists>st'. merge_processes None
          [(''filterbands1'', new_process (VStr ''filter_bands'') [(''data'', VDict [(''from_node'', VStr ''loadcollection1'')])])] []
        = Inr st'
        \<and> obj_at (heap st') 0 = Some (HDict [(''from_node'', HStr ''loadcollection1'')]))"
proof -
  let ?P = "[(''filterbands1'', new_process (VStr ''filter_bands'') [(''data'', VDict [(''from_node'', VStr ''loadcollection1'')])])]"
  let ?st = "\<lparr>heap = [HDict [(''from_node'', HStr ''loadcollection1'')],
                  HDict [(''data'', HRef 0)],
                  HDict [(''process_id'', HStr ''filter_bands''), (''arguments'', HRef 1)]],
          self_result_node = Some (HRef 2),
          key_map = [(''filterbands1'', HBuiltinId)],
          node_refs = [0]\<rparr>"
  have c: "merge_collect (sort_key fst ?P) \<lparr>heap = [], self_result_node = None, key_map = [], node_refs = []\<rparr> = Inr ?st"
    by (simp add: new_process_def heap_process_def obj_at_def extract_node_references_def
        extract_argument_def is_node_ref_def)
  have s: "\<forall>r \<in> set (node_refs ?st). \<exists>d k. obj_at (heap ?st) r = Some (HDict d) \<and> map_of d ''from_node'' = Some (HStr k)"
    by (simp add: obj_at_def)
  from merge_keeps_unresolved_references [OF c s] obtain st' where
    m: "merge_processes None ?P [] = Inr st'" and
    k: "\<forall>a d k. obj_at (heap ?st) a = Some (HDict d) \<and> map_of d ''from_node'' = Some (HStr k)
            \<and> k \<notin> fst ` set ?P \<longrightarrow> obj_at (heap st') a = Some (HDict d)"
    by blast
  have "obj_at (heap ?st) 0 = Some (HDict [(''from_node'', HStr ''loadcollection1'')])
        \<and> map_of [(''from_node'', HStr ''loadcollection1'')] ''from_node'' = Some (HStr ''loadcollection1'')
        \<and> ''loadcollection1'' \<notin> fst ` set ?P"
    by (simp add: obj_at_def)
  with k have "obj_at (heap st') 0 = Some (HDict [(''from_node'', HStr ''loadcollection1'')])"
    by blast
  with c m show ?thesis by blast
qed

text \<open>
  C7, as the specification states it, fails: a graph whose only node refers to
  \<open>loadcollection1\<close>, which is not in the graph, is merged without an error and the
  reference is as it was.
\<close>

theorem merge_unresolved_key_counterexample:
  "merge_processes None
     [(''filterbands1'', new_process (VStr ''filter_bands'') [(''data'', VDict [(''from_node'', VStr ''loadcollection1'')])])] []
   = Inr \<lparr>heap = [HDict [(''from_node'', HStr ''loadcollection1'')],
                  HDict [(''data'', HRef 0)],
                  HDict [(''process_id'', HStr ''filter_bands''), (''arguments'', HRef 1)]],
          self_result_node = Some (HRef 2),
          key_map = [(''filterbands1'', HBuiltinId)],
          node_refs = [0]\<rparr>"
  by (simp add: merge_processes_def new_process_def heap_process_def obj_at_def extract_node_references_def
      extract_argument_def is_node_ref_def rewrite_ref_def)

text \<open>
  C2. After a merge the references into the merged graph should hold the new keys of the
  nodes they referred to, and \<open>key_map\<close> should have the keys that changed. What
  \<open>process\<close> returns, and \<open>key_map\<close> records, is the builtin function \<open>id\<close>: every key
  of the graph is mapped to it, and the reference to \<open>loadcollection1\<close> holds it after the
  merge in place of a key.
\<close>

theorem merge_rewrites_to_builtin_id:
  "merge_processes None
     [(''loadcollection1'', new_process (VStr ''load_collection'') [(''id'', VStr ''S2'')]),
      (''filterbands1'', new_process (VStr ''filter_bands'') [(''data'', VDict [(''from_node'', VStr ''loadcollection1'')])])] []
   = Inr \<lparr>heap = [HDict [(''from_node'', HBuiltinId)],
                  HDict [(''data'', HRef 0)],
                  HDict [(''process_id'', HStr ''filter_bands''), (''arguments'', HRef 1)],
                  HDict [(''id'', HStr ''S2'')],
                  HDict [(''process_id'', HStr ''load_collection''), (''arguments'', HRef 3)]],
          self_result_node = Some (HRef 4),
          key_map = [(''filterbands1'', HBuiltinId), (''loadcollection1'', HBuiltinId)],
          node_refs = [0]\<rparr>"
  by (simp add: merge_processes_def new_process_def heap_process_def obj_at_def extract_node_references_def
      extract_argument_def is_node_ref_def rewrite_ref_def)

end
